theory Spec2Isabelle
  imports Complex_Main "HOL-Library.AList"
begin

section \<open>Cooperative Node Trust Simulator: the simulation core of app.py\<close>

text \<open>
  The script keeps its simulation state in module-level dictionaries keyed by node and
  mutates them from \<open>simulate_step\<close> and \<open>update_trust_energy\<close>. Here the globals
  form one record that every operation takes and returns.

  Modelling choices:
  \<^item> a Python dictionary is an association list with insertion order (the order
    \<open>items()\<close> iterates in); a store to an existing key replaces the value in place,
    a store to a new key appends, and a read of a missing key raises \<open>KeyError\<close>;
  \<^item> trust and energy are Python floats; they are modelled as real numbers, so the
    rounding of IEEE-754 arithmetic is abstracted away;
  \<^item> the literals 0.4 and 0.8 that the draw of an attempt is compared with are the
    doubles they denote, written as exact fractions over \<open>2 ^ 53\<close>, so that the
    comparison has the code's result at every double;
  \<^item> the counters are Python integers, modelled as \<open>int\<close>;
  \<^item> the calls into the \<open>random\<close> module read a record of draws that is passed to
    each step: the value read by each call is an input of the model;
  \<^item> the graph object built by networkx is a parameter: an adjacency dictionary from
    each node to the list of its neighbours.
\<close>

subsection \<open>Data\<close>

datatype role = Honest | Selfish | Malicious

datatype error = IndexError | KeyError | NetworkXError

type_synonym node = nat

type_synonym 'v dict = "(node \<times> 'v) list"

type_synonym graph = "(node list) dict"

type_synonym outcome = "node \<times> node \<times> bool"

record sim =
  G :: graph
  roles :: "role dict"
  trust_scores :: "real dict"
  energy :: "real dict"
  packets_sent :: "int dict"
  packets_received :: "int dict"
  packets_dropped :: "int dict"

text \<open>The values one call of \<open>simulate_step\<close> reads from the random generator.\<close>

record draws =
  pick_sender :: nat
  pick_receiver :: nat
  coin :: real
  cost :: real

subsection \<open>Dictionaries, the graph and random.choice\<close>

definition getitem :: "'v dict \<Rightarrow> node \<Rightarrow> error + 'v" where
  "getitem d k = (case map_of d k of None \<Rightarrow> Inl KeyError | Some v \<Rightarrow> Inr v)"

definition setitem :: "'v dict \<Rightarrow> node \<Rightarrow> 'v \<Rightarrow> 'v dict" where
  "setitem d k v = AList.update k v d"

definition nodes :: "graph \<Rightarrow> node list" where
  "nodes g = map fst g"

definition neighbors :: "graph \<Rightarrow> node \<Rightarrow> error + node list" where
  "neighbors g n = (case map_of g n of None \<Rightarrow> Inl NetworkXError | Some ns \<Rightarrow> Inr ns)"

text \<open>
  \<open>random.choice(seq)\<close> raises \<open>IndexError\<close> on an empty sequence and otherwise returns
  \<open>seq[i]\<close> for an index \<open>i\<close> drawn below \<open>len(seq)\<close>; the index is the draw
  reduced modulo the length.
\<close>

definition choice :: "'a list \<Rightarrow> nat \<Rightarrow> error + 'a" where
  "choice seq k = (if seq = [] then Inl IndexError else Inr (seq ! (k mod length seq)))"

subsection \<open>Initialisation (lines 23 to 36)\<close>

definition empty_sim :: "graph \<Rightarrow> sim" where
  "empty_sim g = \<lparr>G = g, roles = [], trust_scores = [], energy = [],
     packets_sent = [], packets_received = [], packets_dropped = []\<rparr>"

text \<open>The loop over \<open>G.nodes\<close>; \<open>rd n\<close> is the draw read for the role of node \<open>n\<close>.\<close>

fun init_nodes :: "node list \<Rightarrow> (node \<Rightarrow> nat) \<Rightarrow> sim \<Rightarrow> error + sim" where
  "init_nodes [] rd s = Inr s"
| "init_nodes (n # ns) rd s =
     (case choice [Honest, Selfish, Malicious] (rd n) of
        Inl e \<Rightarrow> Inl e
      | Inr r \<Rightarrow>
          init_nodes ns rd
            (s\<lparr>roles := setitem (roles s) n r,
               trust_scores := setitem (trust_scores s) n 1,
               energy := setitem (energy s) n 100,
               packets_sent := setitem (packets_sent s) n 0,
               packets_received := setitem (packets_received s) n 0,
               packets_dropped := setitem (packets_dropped s) n 0\<rparr>))"

definition initialize :: "graph \<Rightarrow> (node \<Rightarrow> nat) \<Rightarrow> error + sim" where
  "initialize g rd = init_nodes (nodes g) rd (empty_sim g)"

subsection \<open>update_trust_energy (lines 40 to 45)\<close>

definition update_trust_energy :: "node \<Rightarrow> bool \<Rightarrow> real \<Rightarrow> sim \<Rightarrow> error + sim" where
  "update_trust_energy sender success u s =
     (case getitem (trust_scores s) sender of
        Inl e \<Rightarrow> Inl e
      | Inr t \<Rightarrow>
          (let s1 = s\<lparr>trust_scores := setitem (trust_scores s) sender
                         (if success then min 1 (t + 0.05) else max 0 (t - 0.1))\<rparr>
           in case getitem (energy s1) sender of
                Inl e \<Rightarrow> Inl e
              | Inr en \<Rightarrow> Inr (s1\<lparr>energy := setitem (energy s1) sender (max 0 (en - u))\<rparr>)))"

subsection \<open>simulate_step (lines 47 to 69)\<close>

text \<open>
  Lines 55 to 60: the outcome of one attempt, from the sender's role and the draw. The
  double written \<open>0.4\<close> is \<open>3602879701896397 / 2 ^ 53\<close>, the double written \<open>0.8\<close> is
  \<open>7205759403792794 / 2 ^ 53\<close>, and \<open>2 ^ 53 = 9007199254740992\<close>.
\<close>

definition attempt :: "role \<Rightarrow> real \<Rightarrow> bool" where
  "attempt behavior r =
     (if behavior = Honest then True
      else if behavior = Selfish then r > 3602879701896397 / 9007199254740992
      else r > 7205759403792794 / 9007199254740992)"

text \<open>
  \<open>random.random()\<close> returns one of the \<open>2 ^ 53\<close> doubles \<open>k / 2 ^ 53\<close> with
  \<open>k < 2 ^ 53\<close>, each as likely as any other. The number of them at which an attempt
  succeeds, divided by \<open>2 ^ 53\<close>, is the probability of success.
\<close>

definition successes :: "role \<Rightarrow> nat" where
  "successes behavior = card {k. k < 2 ^ 53 \<and> attempt behavior (real k / 2 ^ 53)}"

text \<open>Lines 62 to 66: the packet counters.\<close>

definition count_packet :: "node \<Rightarrow> node \<Rightarrow> bool \<Rightarrow> sim \<Rightarrow> error + sim" where
  "count_packet sender receiver success s =
     (case getitem (packets_sent s) sender of
        Inl e \<Rightarrow> Inl e
      | Inr ps \<Rightarrow>
          (let s1 = s\<lparr>packets_sent := setitem (packets_sent s) sender (ps + 1)\<rparr>
           in if success then
                (case getitem (packets_received s1) receiver of
                   Inl e \<Rightarrow> Inl e
                 | Inr pr \<Rightarrow>
                     Inr (s1\<lparr>packets_received := setitem (packets_received s1) receiver (pr + 1)\<rparr>))
              else
                (case getitem (packets_dropped s1) sender of
                   Inl e \<Rightarrow> Inl e
                 | Inr pd \<Rightarrow>
                     Inr (s1\<lparr>packets_dropped := setitem (packets_dropped s1) sender (pd + 1)\<rparr>))))"

definition simulate_step :: "draws \<Rightarrow> sim \<Rightarrow> error + (outcome option \<times> sim)" where
  "simulate_step d s =
     (case choice (nodes (G s)) (pick_sender d) of
        Inl e \<Rightarrow> Inl e
      | Inr sender \<Rightarrow>
     (case neighbors (G s) sender of
        Inl e \<Rightarrow> Inl e
      | Inr nbrs \<Rightarrow>
          if nbrs = [] then Inr (None, s)
          else
     (case choice nbrs (pick_receiver d) of
        Inl e \<Rightarrow> Inl e
      | Inr receiver \<Rightarrow>
     (case getitem (roles s) sender of
        Inl e \<Rightarrow> Inl e
      | Inr behavior \<Rightarrow>
          (let success = attempt behavior (coin d)
           in case count_packet sender receiver success s of
                Inl e \<Rightarrow> Inl e
              | Inr s2 \<Rightarrow>
                  (case update_trust_energy sender success (cost d) s2 of
                     Inl e \<Rightarrow> Inl e
                   | Inr s3 \<Rightarrow> Inr (Some (sender, receiver, success), s3)))))))"

subsection \<open>The run loop (lines 126 to 130)\<close>

text \<open>
  One call of \<open>simulate_step\<close> per element of the list of draws; the results are
  collected in order, \<open>None\<close> for a step that returned nothing.
\<close>

fun run :: "draws list \<Rightarrow> sim \<Rightarrow> error + (outcome option list \<times> sim)" where
  "run [] s = Inr ([], s)"
| "run (d # ds) s =
     (case simulate_step d s of
        Inl e \<Rightarrow> Inl e
      | Inr (r, s1) \<Rightarrow>
          (case run ds s1 of
             Inl e \<Rightarrow> Inl e
           | Inr (rs, s2) \<Rightarrow> Inr (r # rs, s2)))"

text \<open>The script's loop makes 50 calls; \<open>ds i\<close> holds the draws of iteration \<open>i\<close>.\<close>

definition run_sim :: "(nat \<Rightarrow> draws) \<Rightarrow> sim \<Rightarrow> error + (outcome option list \<times> sim)" where
  "run_sim ds s = run (map ds [0..<50]) s"

subsection \<open>The suspicious nodes (lines 112 and 167)\<close>

definition detected :: "sim \<Rightarrow> node list" where
  "detected s = map fst (filter (\<lambda>(n, t). t < 0.4) (trust_scores s))"

definition total :: "int dict \<Rightarrow> int" where
  "total d = sum_list (map snd d)"

subsection \<open>Well-formed graphs and states\<close>

text \<open>
  The graph networkx builds is simple: its nodes are distinct, every neighbour is a node
  and no node is its own neighbour. The slider allows 5 to 20 nodes, so the graph has at
  least one. After the initialisation loop every dictionary has exactly the nodes as keys.
\<close>

definition keys :: "'v dict \<Rightarrow> node list" where
  "keys d = map fst d"

definition wf_graph :: "graph \<Rightarrow> bool" where
  "wf_graph g \<longleftrightarrow>
     g \<noteq> [] \<and> distinct (nodes g) \<and> (\<forall>(n, nb) \<in> set g. set nb \<subseteq> set (nodes g) \<and> n \<notin> set nb)"

definition wf_sim :: "sim \<Rightarrow> bool" where
  "wf_sim s \<longleftrightarrow>
     wf_graph (G s) \<and> keys (roles s) = nodes (G s) \<and> keys (trust_scores s) = nodes (G s)
     \<and> keys (energy s) = nodes (G s) \<and> keys (packets_sent s) = nodes (G s)
     \<and> keys (packets_received s) = nodes (G s) \<and> keys (packets_dropped s) = nodes (G s)"

definition in_range :: "sim \<Rightarrow> bool" where
  "in_range s \<longleftrightarrow>
     (\<forall>(n, t) \<in> set (trust_scores s). 0 \<le> t \<and> t \<le> 1)
     \<and> (\<forall>(n, e) \<in> set (energy s). 0 \<le> e \<and> e \<le> 100)
     \<and> (\<forall>(n, c) \<in> set (packets_sent s). 0 \<le> c)
     \<and> (\<forall>(n, c) \<in> set (packets_received s). 0 \<le> c)
     \<and> (\<forall>(n, c) \<in> set (packets_dropped s). 0 \<le> c)"

definition dict_le :: "('v::ord) dict \<Rightarrow> 'v dict \<Rightarrow> bool" where
  "dict_le d d' \<longleftrightarrow> list_all2 (\<lambda>p q. fst p = fst q \<and> snd p \<le> snd q) d d'"

section \<open>Basic facts\<close>

subsection \<open>Dictionaries, choice and neighbours\<close>

lemma getitem_Some: "map_of d k = Some v \<Longrightarrow> getitem d k = Inr v"
  by (simp add: getitem_def)

lemma getitem_Inr: "getitem d k = Inr v \<longleftrightarrow> map_of d k = Some v"
  by (simp add: getitem_def split: option.splits)

lemma map_of_setitem: "map_of (setitem d k v) = (map_of d)(k \<mapsto> v)"
  by (simp add: setitem_def update_conv')

lemma keys_setitem: "k \<in> set (keys d) \<Longrightarrow> keys (setitem d k v) = keys d"
  by (simp add: keys_def setitem_def update_keys)

lemma setitem_fresh: "k \<notin> set (keys d) \<Longrightarrow> setitem d k v = d @ [(k, v)]"
  unfolding keys_def setitem_def by (induction d) auto

lemma set_setitem: "set (setitem d k v) \<subseteq> insert (k, v) (set d)"
  unfolding setitem_def by (induction d) auto

lemma total_setitem: "map_of d k = Some v \<Longrightarrow> total (setitem d k w) = total d - v + w"
  unfolding setitem_def total_def by (induction d) (auto split: if_splits)

lemma keys_map_of: "k \<in> set (keys d) \<longleftrightarrow> (\<exists>v. map_of d k = Some v)"
  unfolding keys_def by (metis map_of_eq_None_iff not_Some_eq set_map)

lemma map_of_keys: "map_of d k = Some v \<Longrightarrow> k \<in> set (keys d)"
  using keys_map_of by blast

lemma map_of_mem: "map_of d k = Some v \<Longrightarrow> (k, v) \<in> set d"
  by (rule map_of_SomeD)

lemma choice_mem: "choice seq k = Inr x \<Longrightarrow> x \<in> set seq"
  by (auto simp: choice_def split: if_splits)

lemma choice_Inr: "seq \<noteq> [] \<Longrightarrow> \<exists>x. choice seq k = Inr x"
  by (simp add: choice_def)

lemma neighbors_wf:
  assumes "wf_graph g" and "a \<in> set (nodes g)"
  shows "\<exists>nb. neighbors g a = Inr nb \<and> set nb \<subseteq> set (nodes g) \<and> a \<notin> set nb"
proof -
  from assms(2) obtain nb where nb: "map_of g a = Some nb"
    using keys_map_of [of a g] by (auto simp: keys_def nodes_def)
  then have "(a, nb) \<in> set g" by (rule map_of_SomeD)
  with assms(1) have "set nb \<subseteq> set (nodes g) \<and> a \<notin> set nb"
    by (auto simp: wf_graph_def)
  with nb show ?thesis by (simp add: neighbors_def)
qed

lemma neighbors_mem:
  assumes "wf_graph g" and "neighbors g a = Inr nb"
  shows "set nb \<subseteq> set (nodes g) \<and> a \<notin> set nb"
proof -
  from assms(2) have "map_of g a = Some nb"
    by (simp add: neighbors_def split: option.splits)
  then have "(a, nb) \<in> set g" by (rule map_of_SomeD)
  with assms(1) show ?thesis by (auto simp: wf_graph_def)
qed

lemma update_trust_energy_Inr:
  assumes "map_of (trust_scores s) a = Some t" and "map_of (energy s) a = Some e"
  shows "update_trust_energy a ok u s =
           Inr (s\<lparr>trust_scores := setitem (trust_scores s) a
                     (if ok then min 1 (t + 0.05) else max 0 (t - 0.1)),
                  energy := setitem (energy s) a (max 0 (e - u))\<rparr>)"
  using assms by (simp add: update_trust_energy_def getitem_Some)

lemma update_trust_energy_elim:
  assumes "update_trust_energy a ok u s = Inr s'"
  shows "\<exists>t e. map_of (trust_scores s) a = Some t \<and> map_of (energy s) a = Some e
           \<and> s' = s\<lparr>trust_scores := setitem (trust_scores s) a
                       (if ok then min 1 (t + 0.05) else max 0 (t - 0.1)),
                     energy := setitem (energy s) a (max 0 (e - u))\<rparr>"
  using assms
  by (auto simp: update_trust_energy_def getitem_def Let_def split: option.splits)

lemma count_packet_Inr:
  assumes "map_of (packets_sent s) a = Some ps"
    and "map_of (packets_received s) b = Some pr"
    and "map_of (packets_dropped s) a = Some pd"
  shows "count_packet a b ok s =
           Inr (if ok
                then s\<lparr>packets_sent := setitem (packets_sent s) a (ps + 1),
                       packets_received := setitem (packets_received s) b (pr + 1)\<rparr>
                else s\<lparr>packets_sent := setitem (packets_sent s) a (ps + 1),
                       packets_dropped := setitem (packets_dropped s) a (pd + 1)\<rparr>)"
  using assms by (simp add: count_packet_def getitem_Some)

lemma count_packet_elim:
  assumes "count_packet a b ok s = Inr s'"
  shows "\<exists>ps. map_of (packets_sent s) a = Some ps \<and>
           (if ok
            then \<exists>pr. map_of (packets_received s) b = Some pr \<and>
                   s' = s\<lparr>packets_sent := setitem (packets_sent s) a (ps + 1),
                          packets_received := setitem (packets_received s) b (pr + 1)\<rparr>
            else \<exists>pd. map_of (packets_dropped s) a = Some pd \<and>
                   s' = s\<lparr>packets_sent := setitem (packets_sent s) a (ps + 1),
                          packets_dropped := setitem (packets_dropped s) a (pd + 1)\<rparr>)"
  using assms
  by (auto simp: count_packet_def getitem_def Let_def split: option.splits if_splits)

lemma simulate_step_elim:
  assumes "simulate_step d s = Inr (r, s')"
  shows "(\<exists>a. choice (nodes (G s)) (pick_sender d) = Inr a \<and> neighbors (G s) a = Inr []
            \<and> r = None \<and> s' = s)
       \<or> (\<exists>a nb b \<rho> s2. choice (nodes (G s)) (pick_sender d) = Inr a
            \<and> neighbors (G s) a = Inr nb \<and> nb \<noteq> []
            \<and> choice nb (pick_receiver d) = Inr b
            \<and> map_of (roles s) a = Some \<rho>
            \<and> r = Some (a, b, attempt \<rho> (coin d))
            \<and> count_packet a b (attempt \<rho> (coin d)) s = Inr s2
            \<and> update_trust_energy a (attempt \<rho> (coin d)) (cost d) s2 = Inr s')"
  using assms
  by (auto simp: simulate_step_def getitem_Inr Let_def split: sum.splits if_splits)

lemma simulate_step_noop:
  assumes "choice (nodes (G s)) (pick_sender d) = Inr a" and "neighbors (G s) a = Inr []"
  shows "simulate_step d s = Inr (None, s)"
  using assms by (simp add: simulate_step_def)

lemma simulate_step_complete:
  assumes "choice (nodes (G s)) (pick_sender d) = Inr a"
    and "neighbors (G s) a = Inr nb" and "nb \<noteq> []"
    and "choice nb (pick_receiver d) = Inr b"
    and "map_of (roles s) a = Some \<rho>"
    and "count_packet a b (attempt \<rho> (coin d)) s = Inr s2"
    and "update_trust_energy a (attempt \<rho> (coin d)) (cost d) s2 = Inr s3"
  shows "simulate_step d s = Inr (Some (a, b, attempt \<rho> (coin d)), s3)"
  using assms by (simp add: simulate_step_def getitem_Some Let_def)

lemma dict_le_refl: "dict_le (d :: ('v::preorder) dict) d"
  by (simp add: dict_le_def list_all2_refl)

lemma dict_le_setitem:
  fixes d :: "('v::preorder) dict"
  shows "map_of d k = Some v \<Longrightarrow> v \<le> w \<Longrightarrow> dict_le d (setitem d k w)"
  unfolding dict_le_def setitem_def
  by (induction d) (auto simp: list_all2_refl split: if_splits)

lemma dict_ge_setitem:
  fixes d :: "('v::preorder) dict"
  shows "map_of d k = Some v \<Longrightarrow> w \<le> v \<Longrightarrow> dict_le (setitem d k w) d"
  unfolding dict_le_def setitem_def
  by (induction d) (auto simp: list_all2_refl split: if_splits)

lemma ball_setitem:
  assumes "\<forall>(n, x) \<in> set d. P x" and "P v"
  shows "\<forall>(n, x) \<in> set (setitem d k v). P x"
  using assms set_setitem [of d k v] by blast

lemma init_nodes_closed:
  assumes "distinct ns" and "set ns \<inter> set (keys (roles s)) = {}"
    and "set ns \<inter> set (keys (trust_scores s)) = {}"
    and "set ns \<inter> set (keys (energy s)) = {}"
    and "set ns \<inter> set (keys (packets_sent s)) = {}"
    and "set ns \<inter> set (keys (packets_received s)) = {}"
    and "set ns \<inter> set (keys (packets_dropped s)) = {}"
  shows "init_nodes ns rd s =
     Inr (s\<lparr>roles := roles s @ map (\<lambda>n. (n, [Honest, Selfish, Malicious] ! (rd n mod 3))) ns,
            trust_scores := trust_scores s @ map (\<lambda>n. (n, 1)) ns,
            energy := energy s @ map (\<lambda>n. (n, 100)) ns,
            packets_sent := packets_sent s @ map (\<lambda>n. (n, 0)) ns,
            packets_received := packets_received s @ map (\<lambda>n. (n, 0)) ns,
            packets_dropped := packets_dropped s @ map (\<lambda>n. (n, 0)) ns\<rparr>)"
  using assms
proof (induction ns arbitrary: s)
  case Nil
  then show ?case by simp
next
  case (Cons n ns)
  let ?r = "[Honest, Selfish, Malicious] ! (rd n mod 3)"
  let ?s1 = "s\<lparr>roles := roles s @ [(n, ?r)],
               trust_scores := trust_scores s @ [(n, 1)],
               energy := energy s @ [(n, 100)],
               packets_sent := packets_sent s @ [(n, 0)],
               packets_received := packets_received s @ [(n, 0)],
               packets_dropped := packets_dropped s @ [(n, 0)]\<rparr>"
  have fresh: "n \<notin> set (keys (roles s))" "n \<notin> set (keys (trust_scores s))"
    "n \<notin> set (keys (energy s))" "n \<notin> set (keys (packets_sent s))"
    "n \<notin> set (keys (packets_received s))" "n \<notin> set (keys (packets_dropped s))"
    using Cons.prems by auto
  have step: "init_nodes (n # ns) rd s = init_nodes ns rd ?s1"
    by (simp add: choice_def setitem_fresh fresh)
  have "init_nodes ns rd ?s1 =
     Inr (?s1\<lparr>roles := roles ?s1 @ map (\<lambda>n. (n, [Honest, Selfish, Malicious] ! (rd n mod 3))) ns,
            trust_scores := trust_scores ?s1 @ map (\<lambda>n. (n, 1)) ns,
            energy := energy ?s1 @ map (\<lambda>n. (n, 100)) ns,
            packets_sent := packets_sent ?s1 @ map (\<lambda>n. (n, 0)) ns,
            packets_received := packets_received ?s1 @ map (\<lambda>n. (n, 0)) ns,
            packets_dropped := packets_dropped ?s1 @ map (\<lambda>n. (n, 0)) ns\<rparr>)"
    using Cons.prems by (intro Cons.IH) (auto simp: keys_def)
  with step show ?case by simp
qed

lemma initialize_closed:
  assumes "distinct (nodes g)"
  shows "initialize g rd =
     Inr \<lparr>G = g,
          roles = map (\<lambda>n. (n, [Honest, Selfish, Malicious] ! (rd n mod 3))) (nodes g),
          trust_scores = map (\<lambda>n. (n, 1)) (nodes g),
          energy = map (\<lambda>n. (n, 100)) (nodes g),
          packets_sent = map (\<lambda>n. (n, 0)) (nodes g),
          packets_received = map (\<lambda>n. (n, 0)) (nodes g),
          packets_dropped = map (\<lambda>n. (n, 0)) (nodes g)\<rparr>"
  unfolding initialize_def
  by (subst init_nodes_closed) (use assms in \<open>simp_all add: empty_sim_def keys_def\<close>)

lemma keys_map_const: "keys (map (\<lambda>n. (n, f n)) ns) = ns"
  by (simp add: keys_def comp_def)

lemma total_zero: "total (map (\<lambda>n. (n, 0)) ns) = 0"
  by (induction ns) (simp_all add: total_def)

lemma initialize_wf:
  assumes "wf_graph g"
  shows "\<exists>s0. initialize g rd = Inr s0 \<and> G s0 = g \<and> wf_sim s0 \<and> in_range s0
           \<and> total (packets_sent s0) = 0 \<and> total (packets_received s0) = 0
           \<and> total (packets_dropped s0) = 0"
proof -
  from assms have "distinct (nodes g)" by (simp add: wf_graph_def)
  from initialize_closed [OF this, of rd] assms show ?thesis
    by (auto simp: wf_sim_def in_range_def keys_map_const total_zero)
qed

lemma keys_setitem_Some: "map_of d k = Some w \<Longrightarrow> keys (setitem d k v) = keys d"
  by (simp add: keys_setitem map_of_keys)

lemma wf_sim_lookup:
  assumes "wf_sim s" and "n \<in> set (nodes (G s))"
  shows "\<exists>\<rho> t e ps pr pd. map_of (roles s) n = Some \<rho> \<and> map_of (trust_scores s) n = Some t
     \<and> map_of (energy s) n = Some e \<and> map_of (packets_sent s) n = Some ps
     \<and> map_of (packets_received s) n = Some pr \<and> map_of (packets_dropped s) n = Some pd"
  using assms unfolding wf_sim_def by (metis keys_map_of)

lemma count_packet_wf:
  assumes "count_packet a b ok s = Inr s'" and "wf_sim s"
  shows "wf_sim s'"
proof -
  from count_packet_elim [OF assms(1)] obtain ps where
    ps: "map_of (packets_sent s) a = Some ps" and
    rest: "if ok
            then \<exists>pr. map_of (packets_received s) b = Some pr \<and>
                   s' = s\<lparr>packets_sent := setitem (packets_sent s) a (ps + 1),
                          packets_received := setitem (packets_received s) b (pr + 1)\<rparr>
            else \<exists>pd. map_of (packets_dropped s) a = Some pd \<and>
                   s' = s\<lparr>packets_sent := setitem (packets_sent s) a (ps + 1),
                          packets_dropped := setitem (packets_dropped s) a (pd + 1)\<rparr>"
    by blast
  show ?thesis
  proof (cases ok)
    case True
    with rest obtain pr where "map_of (packets_received s) b = Some pr"
      and "s' = s\<lparr>packets_sent := setitem (packets_sent s) a (ps + 1),
                   packets_received := setitem (packets_received s) b (pr + 1)\<rparr>"
      by auto
    with ps assms(2) show ?thesis
      by (simp add: wf_sim_def keys_setitem_Some)
  next
    case False
    with rest obtain pd where "map_of (packets_dropped s) a = Some pd"
      and "s' = s\<lparr>packets_sent := setitem (packets_sent s) a (ps + 1),
                   packets_dropped := setitem (packets_dropped s) a (pd + 1)\<rparr>"
      by auto
    with ps assms(2) show ?thesis
      by (simp add: wf_sim_def keys_setitem_Some)
  qed
qed

lemma update_trust_energy_wf:
  assumes "update_trust_energy a ok u s = Inr s'" and "wf_sim s"
  shows "wf_sim s'"
proof -
  from update_trust_energy_elim [OF assms(1)] obtain t e where
    "map_of (trust_scores s) a = Some t" and "map_of (energy s) a = Some e"
    and "s' = s\<lparr>trust_scores := setitem (trust_scores s) a
                       (if ok then min 1 (t + 0.05) else max 0 (t - 0.1)),
                 energy := setitem (energy s) a (max 0 (e - u))\<rparr>"
    by blast
  with assms(2) show ?thesis
    by (simp add: wf_sim_def keys_setitem_Some)
qed

lemma simulate_step_wf:
  assumes "simulate_step d s = Inr (r, s')" and "wf_sim s"
  shows "wf_sim s'"
  using simulate_step_elim [OF assms(1)] assms(2)
  by (auto dest: count_packet_wf update_trust_energy_wf)

lemma simulate_step_total:
  assumes "wf_sim s"
  shows "\<exists>r s'. simulate_step d s = Inr (r, s')"
proof -
  from assms have ne: "nodes (G s) \<noteq> []" and g: "wf_graph (G s)"
    by (auto simp: wf_sim_def wf_graph_def nodes_def)
  from choice_Inr [OF ne] obtain a where a: "choice (nodes (G s)) (pick_sender d) = Inr a"
    by blast
  then have a_in: "a \<in> set (nodes (G s))" by (rule choice_mem)
  from neighbors_wf [OF g a_in] obtain nb where nb: "neighbors (G s) a = Inr nb"
    and sub: "set nb \<subseteq> set (nodes (G s))" by blast
  show ?thesis
  proof (cases "nb = []")
    case True
    with a nb show ?thesis by (auto intro: simulate_step_noop)
  next
    case False
    from choice_Inr [OF False] obtain b where b: "choice nb (pick_receiver d) = Inr b"
      by blast
    then have b_in: "b \<in> set (nodes (G s))" using sub choice_mem by fastforce
    from wf_sim_lookup [OF assms a_in] obtain \<rho> t e ps pd where
      la: "map_of (roles s) a = Some \<rho>" "map_of (trust_scores s) a = Some t"
        "map_of (energy s) a = Some e" "map_of (packets_sent s) a = Some ps"
        "map_of (packets_dropped s) a = Some pd"
      by blast
    from wf_sim_lookup [OF assms b_in] obtain pr where
      lb: "map_of (packets_received s) b = Some pr" by blast
    let ?ok = "attempt \<rho> (coin d)"
    from count_packet_Inr [OF la(4) lb la(5), of ?ok]
    obtain s2 where s2: "count_packet a b ?ok s = Inr s2"
      and tr: "trust_scores s2 = trust_scores s" and en: "energy s2 = energy s"
      by (cases ?ok) auto
    from update_trust_energy_Inr [of s2 a t e ?ok "cost d"] la tr en
    obtain s3 where "update_trust_energy a ?ok (cost d) s2 = Inr s3" by auto
    from simulate_step_complete [OF a nb False b la(1) s2 this] show ?thesis by blast
  qed
qed

lemma run_total:
  assumes "wf_sim s"
  shows "\<exists>rs s'. run ds s = Inr (rs, s') \<and> wf_sim s' \<and> length rs = length ds"
  using assms
proof (induction ds arbitrary: s)
  case Nil
  then show ?case by simp
next
  case (Cons d ds)
  from simulate_step_total [OF Cons.prems] obtain r s1 where
    st: "simulate_step d s = Inr (r, s1)" by blast
  from st Cons.prems have "wf_sim s1" by (rule simulate_step_wf)
  from Cons.IH [OF this] obtain rs s' where
    "run ds s1 = Inr (rs, s')" "wf_sim s'" "length rs = length ds" by blast
  with st show ?case by simp
qed

lemma run_snoc:
  "run (ds @ [d]) s =
     (case run ds s of
        Inl e \<Rightarrow> Inl e
      | Inr (rs, s1) \<Rightarrow>
          (case simulate_step d s1 of
             Inl e \<Rightarrow> Inl e
           | Inr (r, s2) \<Rightarrow> Inr (rs @ [r], s2)))"
  by (induction ds arbitrary: s) (auto split: sum.splits prod.splits)

lemma run_invariant:
  assumes "run ds s = Inr (rs, s')" and "P s"
    and "\<And>d r t t'. d \<in> set ds \<Longrightarrow> P t \<Longrightarrow> simulate_step d t = Inr (r, t') \<Longrightarrow> P t'"
  shows "P s'"
  using assms
proof (induction ds arbitrary: s rs)
  case Nil
  then show ?case by simp
next
  case (Cons d ds)
  from Cons.prems(1) obtain r s1 rs1 where
    st: "simulate_step d s = Inr (r, s1)" and rn: "run ds s1 = Inr (rs1, s')"
    by (auto split: sum.splits prod.splits)
  from Cons.prems(3) [OF _ Cons.prems(2) st] have "P s1" by simp
  show ?case
  proof (rule Cons.IH [OF rn \<open>P s1\<close>])
    fix d' r t t'
    assume "d' \<in> set ds" "P t" "simulate_step d' t = Inr (r, t')"
    then show "P t'" using Cons.prems(3) [of d' t r t'] by simp
  qed
qed

subsection \<open>One step: its effect on the state\<close>

lemma simulate_step_None:
  assumes "simulate_step d s = Inr (None, s')"
  shows "s' = s"
  using simulate_step_elim [OF assms] by auto

lemma simulate_step_Some:
  assumes "simulate_step d s = Inr (Some (a, b, ok), s')"
  shows "\<exists>nb \<rho> t e ps.
           choice (nodes (G s)) (pick_sender d) = Inr a
         \<and> neighbors (G s) a = Inr nb \<and> nb \<noteq> []
         \<and> choice nb (pick_receiver d) = Inr b
         \<and> map_of (roles s) a = Some \<rho> \<and> ok = attempt \<rho> (coin d)
         \<and> map_of (trust_scores s) a = Some t
         \<and> map_of (energy s) a = Some e
         \<and> map_of (packets_sent s) a = Some ps
         \<and> (if ok
            then \<exists>pr. map_of (packets_received s) b = Some pr \<and>
                   s' = s\<lparr>packets_sent := setitem (packets_sent s) a (ps + 1),
                          packets_received := setitem (packets_received s) b (pr + 1),
                          trust_scores := setitem (trust_scores s) a (min 1 (t + 0.05)),
                          energy := setitem (energy s) a (max 0 (e - cost d))\<rparr>
            else \<exists>pd. map_of (packets_dropped s) a = Some pd \<and>
                   s' = s\<lparr>packets_sent := setitem (packets_sent s) a (ps + 1),
                          packets_dropped := setitem (packets_dropped s) a (pd + 1),
                          trust_scores := setitem (trust_scores s) a (max 0 (t - 0.1)),
                          energy := setitem (energy s) a (max 0 (e - cost d))\<rparr>)"
proof -
  from simulate_step_elim [OF assms] obtain nb \<rho> s2 where
    a: "choice (nodes (G s)) (pick_sender d) = Inr a"
    and nb: "neighbors (G s) a = Inr nb" "nb \<noteq> []"
    and b: "choice nb (pick_receiver d) = Inr b"
    and \<rho>: "map_of (roles s) a = Some \<rho>" "ok = attempt \<rho> (coin d)"
    and cp: "count_packet a b ok s = Inr s2"
    and ute: "update_trust_energy a ok (cost d) s2 = Inr s'"
    by auto
  from count_packet_elim [OF cp] obtain ps where
    ps: "map_of (packets_sent s) a = Some ps" and
    c: "if ok
            then \<exists>pr. map_of (packets_received s) b = Some pr \<and>
                   s2 = s\<lparr>packets_sent := setitem (packets_sent s) a (ps + 1),
                          packets_received := setitem (packets_received s) b (pr + 1)\<rparr>
            else \<exists>pd. map_of (packets_dropped s) a = Some pd \<and>
                   s2 = s\<lparr>packets_sent := setitem (packets_sent s) a (ps + 1),
                          packets_dropped := setitem (packets_dropped s) a (pd + 1)\<rparr>"
    by blast
  from update_trust_energy_elim [OF ute] obtain t e where
    t: "map_of (trust_scores s2) a = Some t" and e: "map_of (energy s2) a = Some e"
    and u: "s' = s2\<lparr>trust_scores := setitem (trust_scores s2) a
                       (if ok then min 1 (t + 0.05) else max 0 (t - 0.1)),
                 energy := setitem (energy s2) a (max 0 (e - cost d))\<rparr>"
    by blast
  from c have same: "trust_scores s2 = trust_scores s" "energy s2 = energy s"
    by (auto split: if_splits)
  show ?thesis
  proof (cases ok)
    case True
    with c obtain pr where "map_of (packets_received s) b = Some pr"
      and "s2 = s\<lparr>packets_sent := setitem (packets_sent s) a (ps + 1),
                   packets_received := setitem (packets_received s) b (pr + 1)\<rparr>"
      by auto
    with True a nb b \<rho> ps t e u same show ?thesis by auto
  next
    case False
    with c obtain pd where "map_of (packets_dropped s) a = Some pd"
      and "s2 = s\<lparr>packets_sent := setitem (packets_sent s) a (ps + 1),
                   packets_dropped := setitem (packets_dropped s) a (pd + 1)\<rparr>"
      by auto
    with False a nb b \<rho> ps t e u same show ?thesis by auto
  qed
qed

lemma simulate_step_range:
  assumes "simulate_step d s = Inr (r, s')" and "in_range s" and "0 \<le> cost d"
  shows "in_range s'"
proof (cases r)
  case None
  with assms show ?thesis by (auto dest: simulate_step_None)
next
  case (Some o3)
  obtain a b ok where o3: "o3 = (a, b, ok)" by (cases o3) auto
  from simulate_step_Some [OF assms(1) [unfolded Some o3]] obtain t e ps where
    t: "map_of (trust_scores s) a = Some t" and e: "map_of (energy s) a = Some e"
    and ps: "map_of (packets_sent s) a = Some ps"
    and c: "if ok
            then \<exists>pr. map_of (packets_received s) b = Some pr \<and>
                   s' = s\<lparr>packets_sent := setitem (packets_sent s) a (ps + 1),
                          packets_received := setitem (packets_received s) b (pr + 1),
                          trust_scores := setitem (trust_scores s) a (min 1 (t + 0.05)),
                          energy := setitem (energy s) a (max 0 (e - cost d))\<rparr>
            else \<exists>pd. map_of (packets_dropped s) a = Some pd \<and>
                   s' = s\<lparr>packets_sent := setitem (packets_sent s) a (ps + 1),
                          packets_dropped := setitem (packets_dropped s) a (pd + 1),
                          trust_scores := setitem (trust_scores s) a (max 0 (t - 0.1)),
                          energy := setitem (energy s) a (max 0 (e - cost d))\<rparr>"
    by blast
  from t e ps assms(2) have bt: "0 \<le> t \<and> t \<le> 1" and be: "0 \<le> e \<and> e \<le> 100" and bp: "0 \<le> ps"
    by (auto simp: in_range_def dest!: map_of_mem)
  have en: "\<forall>(n, x) \<in> set (setitem (energy s) a (max 0 (e - cost d))). 0 \<le> x \<and> x \<le> 100"
    using assms(2,3) be by (intro ball_setitem) (auto simp: in_range_def)
  have sn: "\<forall>(n, x) \<in> set (setitem (packets_sent s) a (ps + 1)). 0 \<le> x"
    using assms(2) bp by (intro ball_setitem) (auto simp: in_range_def)
  show ?thesis
  proof (cases ok)
    case True
    with c obtain pr where pr: "map_of (packets_received s) b = Some pr"
      and s': "s' = s\<lparr>packets_sent := setitem (packets_sent s) a (ps + 1),
                          packets_received := setitem (packets_received s) b (pr + 1),
                          trust_scores := setitem (trust_scores s) a (min 1 (t + 0.05)),
                          energy := setitem (energy s) a (max 0 (e - cost d))\<rparr>"
      by auto
    from pr assms(2) have "0 \<le> pr" by (auto simp: in_range_def dest!: map_of_mem)
    then have rc: "\<forall>(n, x) \<in> set (setitem (packets_received s) b (pr + 1)). 0 \<le> x"
      using assms(2) by (intro ball_setitem) (auto simp: in_range_def)
    have tr: "\<forall>(n, x) \<in> set (setitem (trust_scores s) a (min 1 (t + 0.05))). 0 \<le> x \<and> x \<le> 1"
      using assms(2) bt by (intro ball_setitem) (auto simp: in_range_def)
    from s' en sn rc tr assms(2) show ?thesis by (simp add: in_range_def)
  next
    case False
    with c obtain pd where pd: "map_of (packets_dropped s) a = Some pd"
      and s': "s' = s\<lparr>packets_sent := setitem (packets_sent s) a (ps + 1),
                          packets_dropped := setitem (packets_dropped s) a (pd + 1),
                          trust_scores := setitem (trust_scores s) a (max 0 (t - 0.1)),
                          energy := setitem (energy s) a (max 0 (e - cost d))\<rparr>"
      by auto
    from pd assms(2) have "0 \<le> pd" by (auto simp: in_range_def dest!: map_of_mem)
    then have dr: "\<forall>(n, x) \<in> set (setitem (packets_dropped s) a (pd + 1)). 0 \<le> x"
      using assms(2) by (intro ball_setitem) (auto simp: in_range_def)
    have tr: "\<forall>(n, x) \<in> set (setitem (trust_scores s) a (max 0 (t - 0.1))). 0 \<le> x \<and> x \<le> 1"
      using assms(2) bt by (intro ball_setitem) (auto simp: in_range_def)
    from s' en sn dr tr assms(2) show ?thesis by (simp add: in_range_def)
  qed
qed

lemma simulate_step_monotone:
  assumes "simulate_step d s = Inr (r, s')" and "in_range s" and "0 \<le> cost d"
  shows "dict_le (energy s') (energy s) \<and> dict_le (packets_sent s) (packets_sent s')
       \<and> dict_le (packets_received s) (packets_received s')
       \<and> dict_le (packets_dropped s) (packets_dropped s')"
proof (cases r)
  case None
  with assms show ?thesis by (auto dest: simulate_step_None simp: dict_le_refl)
next
  case (Some o3)
  obtain a b ok where o3: "o3 = (a, b, ok)" by (cases o3) auto
  from simulate_step_Some [OF assms(1) [unfolded Some o3]] obtain t e ps where
    e: "map_of (energy s) a = Some e"
    and ps: "map_of (packets_sent s) a = Some ps"
    and c: "if ok
            then \<exists>pr. map_of (packets_received s) b = Some pr \<and>
                   s' = s\<lparr>packets_sent := setitem (packets_sent s) a (ps + 1),
                          packets_received := setitem (packets_received s) b (pr + 1),
                          trust_scores := setitem (trust_scores s) a (min 1 (t + 0.05)),
                          energy := setitem (energy s) a (max 0 (e - cost d))\<rparr>
            else \<exists>pd. map_of (packets_dropped s) a = Some pd \<and>
                   s' = s\<lparr>packets_sent := setitem (packets_sent s) a (ps + 1),
                          packets_dropped := setitem (packets_dropped s) a (pd + 1),
                          trust_scores := setitem (trust_scores s) a (max 0 (t - 0.1)),
                          energy := setitem (energy s) a (max 0 (e - cost d))\<rparr>"
    by blast
  from e assms(2) have "0 \<le> e" by (auto simp: in_range_def dest!: map_of_mem)
  with assms(3) have "max 0 (e - cost d) \<le> e" by simp
  from dict_ge_setitem [OF e this]
  have en: "dict_le (setitem (energy s) a (max 0 (e - cost d))) (energy s)" .
  have sn: "dict_le (packets_sent s) (setitem (packets_sent s) a (ps + 1))"
    by (rule dict_le_setitem [OF ps]) simp
  show ?thesis
  proof (cases ok)
    case True
    with c obtain pr where pr: "map_of (packets_received s) b = Some pr"
      and s': "s' = s\<lparr>packets_sent := setitem (packets_sent s) a (ps + 1),
                          packets_received := setitem (packets_received s) b (pr + 1),
                          trust_scores := setitem (trust_scores s) a (min 1 (t + 0.05)),
                          energy := setitem (energy s) a (max 0 (e - cost d))\<rparr>"
      by auto
    have "dict_le (packets_received s) (setitem (packets_received s) b (pr + 1))"
      by (rule dict_le_setitem [OF pr]) simp
    with s' en sn show ?thesis by (simp add: dict_le_refl)
  next
    case False
    with c obtain pd where pd: "map_of (packets_dropped s) a = Some pd"
      and s': "s' = s\<lparr>packets_sent := setitem (packets_sent s) a (ps + 1),
                          packets_dropped := setitem (packets_dropped s) a (pd + 1),
                          trust_scores := setitem (trust_scores s) a (max 0 (t - 0.1)),
                          energy := setitem (energy s) a (max 0 (e - cost d))\<rparr>"
      by auto
    have "dict_le (packets_dropped s) (setitem (packets_dropped s) a (pd + 1))"
      by (rule dict_le_setitem [OF pd]) simp
    with s' en sn show ?thesis by (simp add: dict_le_refl)
  qed
qed

lemma simulate_step_conservation:
  assumes "simulate_step d s = Inr (r, s')"
    and "total (packets_received s) + total (packets_dropped s) = total (packets_sent s)"
  shows "total (packets_received s') + total (packets_dropped s') = total (packets_sent s')"
proof (cases r)
  case None
  with assms show ?thesis by (auto dest: simulate_step_None)
next
  case (Some o3)
  obtain a b ok where o3: "o3 = (a, b, ok)" by (cases o3) auto
  from simulate_step_Some [OF assms(1) [unfolded Some o3]] obtain t e ps where
    ps: "map_of (packets_sent s) a = Some ps"
    and c: "if ok
            then \<exists>pr. map_of (packets_received s) b = Some pr \<and>
                   s' = s\<lparr>packets_sent := setitem (packets_sent s) a (ps + 1),
                          packets_received := setitem (packets_received s) b (pr + 1),
                          trust_scores := setitem (trust_scores s) a (min 1 (t + 0.05)),
                          energy := setitem (energy s) a (max 0 (e - cost d))\<rparr>
            else \<exists>pd. map_of (packets_dropped s) a = Some pd \<and>
                   s' = s\<lparr>packets_sent := setitem (packets_sent s) a (ps + 1),
                          packets_dropped := setitem (packets_dropped s) a (pd + 1),
                          trust_scores := setitem (trust_scores s) a (max 0 (t - 0.1)),
                          energy := setitem (energy s) a (max 0 (e - cost d))\<rparr>"
    by blast
  from c ps assms(2) show ?thesis
    by (cases ok) (auto simp: total_setitem)
qed

subsection \<open>Runs\<close>

lemma run_range:
  assumes "run ds s = Inr (rs, s')" and "in_range s" and "\<forall>d \<in> set ds. 0 \<le> cost d"
  shows "in_range s'"
  using assms(1,2)
proof (rule run_invariant)
  fix d r t t'
  assume "d \<in> set ds" "in_range t" "simulate_step d t = Inr (r, t')"
  with assms(3) show "in_range t'" by (auto intro: simulate_step_range)
qed

lemma run_conservation:
  assumes "run ds s = Inr (rs, s')"
    and "total (packets_received s) + total (packets_dropped s) = total (packets_sent s)"
  shows "total (packets_received s') + total (packets_dropped s') = total (packets_sent s')"
  using assms
  by (rule run_invariant
        [where P = "\<lambda>s. total (packets_received s) + total (packets_dropped s) = total (packets_sent s)"])
     (rule simulate_step_conservation)

lemma no_edges_step:
  assumes "G s \<noteq> []" and "\<forall>(n, nb) \<in> set (G s). nb = []"
  shows "simulate_step d s = Inr (None, s)"
proof -
  from assms(1) have "nodes (G s) \<noteq> []" by (simp add: nodes_def)
  from choice_Inr [OF this] obtain a where a: "choice (nodes (G s)) (pick_sender d) = Inr a"
    by blast
  then have "a \<in> set (keys (G s))" by (auto dest: choice_mem simp: keys_def nodes_def)
  then obtain nb where nb: "map_of (G s) a = Some nb" by (auto simp: keys_map_of)
  then have "(a, nb) \<in> set (G s)" by (rule map_of_SomeD)
  with assms(2) have "nb = []" by auto
  with nb have "neighbors (G s) a = Inr []" by (simp add: neighbors_def)
  with a show ?thesis by (rule simulate_step_noop)
qed

lemma no_edges_run:
  assumes "G s \<noteq> []" and "\<forall>(n, nb) \<in> set (G s). nb = []"
  shows "run ds s = Inr (replicate (length ds) None, s)"
  by (induction ds) (simp_all add: no_edges_step [OF assms])

subsection \<open>Classifier\<close>

lemma detected_set:
  "set (detected s) = {n. \<exists>t. (n, t) \<in> set (trust_scores s) \<and> t < 0.4}"
  by (auto simp: detected_def image_iff)

lemma distinct_map_of_iff:
  "distinct (keys d) \<Longrightarrow> (k, v) \<in> set d \<longleftrightarrow> map_of d k = Some v"
  by (auto simp: keys_def dest: map_of_SomeD)

subsection \<open>Counting the successful draws\<close>

lemma grid_above:
  "{k. k < (9007199254740992::nat) \<and> real k / 9007199254740992 > real c / 9007199254740992}
     = {c<..<9007199254740992}"
  by (auto simp: divide_less_cancel)

lemma successes_Honest: "successes Honest = 9007199254740992"
  by (simp add: successes_def attempt_def)

lemma successes_Selfish: "successes Selfish = 5404319552844594"
proof -
  have "{k. k < (2::nat) ^ 53 \<and> attempt Selfish (real k / 2 ^ 53)}
      = {k. k < (9007199254740992::nat)
            \<and> real k / 9007199254740992 > real (3602879701896397::nat) / 9007199254740992}"
    by (simp add: attempt_def)
  also have "\<dots> = {3602879701896397<..<9007199254740992}" by (rule grid_above)
  finally show ?thesis by (simp add: successes_def)
qed

lemma successes_Malicious: "successes Malicious = 1801439850948197"
proof -
  have "{k. k < (2::nat) ^ 53 \<and> attempt Malicious (real k / 2 ^ 53)}
      = {k. k < (9007199254740992::nat)
            \<and> real k / 9007199254740992 > real (7205759403792794::nat) / 9007199254740992}"
    by (simp add: attempt_def)
  also have "\<dots> = {7205759403792794<..<9007199254740992}" by (rule grid_above)
  finally show ?thesis by (simp add: successes_def)
qed

section \<open>The claims\<close>

subsection \<open>The trust and energy update\<close>

text \<open>
  C1. For a node \<open>s\<close> that has a trust and an energy entry, \<open>update_trust_energy\<close>
  returns normally. With outcome success the trust of \<open>s\<close> becomes
  \<open>min 1 (trust + 0.05)\<close>, with outcome failure \<open>max 0 (trust - 0.1)\<close>; in both
  cases the energy of \<open>s\<close> becomes \<open>max 0 (energy - u)\<close> for the draw \<open>u\<close>. The trust
  and energy of every other node, the order of the entries, the roles, the three packet
  counters and the graph stay as they were.
\<close>

theorem update_trust_energy_spec:
  assumes "map_of (trust_scores st) s = Some t" and "map_of (energy st) s = Some e"
  shows "\<exists>st'. update_trust_energy s ok u st = Inr st'
     \<and> map_of (trust_scores st') =
         (map_of (trust_scores st))(s \<mapsto> (if ok then min 1 (t + 0.05) else max 0 (t - 0.1)))
     \<and> map_of (energy st') = (map_of (energy st))(s \<mapsto> max 0 (e - u))
     \<and> keys (trust_scores st') = keys (trust_scores st)
     \<and> keys (energy st') = keys (energy st)
     \<and> G st' = G st \<and> roles st' = roles st
     \<and> packets_sent st' = packets_sent st
     \<and> packets_received st' = packets_received st
     \<and> packets_dropped st' = packets_dropped st"
proof -
  have k1: "s \<in> set (keys (trust_scores st))" and k2: "s \<in> set (keys (energy st))"
    using assms by (auto intro: map_of_keys)
  show ?thesis
    using assms k1 k2
    by (simp add: update_trust_energy_Inr [OF assms] map_of_setitem keys_setitem)
qed

theorem update_trust_energy_spec_witness:
  "map_of [(0::node, 0.05::real)] 0 = Some 0.05 \<and> map_of [(0::node, 0.75::real)] 0 = Some 0.75
   \<and> (\<exists>st'. update_trust_energy 0 False 1
            ((empty_sim [(0, [])])\<lparr>trust_scores := [(0, 0.05)], energy := [(0, 0.75)]\<rparr>) = Inr st'
     \<and> map_of (trust_scores st') 0 = Some 0
     \<and> map_of (energy st') 0 = Some 0)"
proof -
  let ?st = "(empty_sim [(0, [])])\<lparr>trust_scores := [(0, 0.05)], energy := [(0, 0.75)]\<rparr>"
  have t: "map_of (trust_scores ?st) 0 = Some 0.05" and e: "map_of (energy ?st) 0 = Some 0.75"
    by (simp_all add: empty_sim_def)
  from update_trust_energy_spec [OF t e, of False 1]
  obtain st' where "update_trust_energy 0 False 1 ?st = Inr st'"
    and "map_of (trust_scores st') = (map_of (trust_scores ?st))(0 \<mapsto> max 0 (0.05 - 0.1))"
    and "map_of (energy st') = (map_of (energy ?st))(0 \<mapsto> max 0 (0.75 - 1))"
    by auto
  then show ?thesis by simp
qed

subsection \<open>The behaviour policy\<close>

text \<open>
  C5, as stated, fails. The double written \<open>0.4\<close> is a draw that exceeds the number 0.4,
  and a Selfish sender fails at it. Of the \<open>2 ^ 53\<close> equally likely draws the share at
  which a Selfish sender succeeds is not 0.6, and the share at which a Malicious sender
  succeeds is not 0.2.
\<close>

theorem attempt_exactly_counterexample:
  "(0.4::real) < 3602879701896397 / 9007199254740992
   \<and> \<not> attempt Selfish (3602879701896397 / 9007199254740992)
   \<and> real (successes Selfish) / 2 ^ 53 \<noteq> 0.6
   \<and> real (successes Malicious) / 2 ^ 53 \<noteq> 0.2"
  by (simp add: attempt_def successes_Selfish successes_Malicious)

text \<open>
  C5, amended. An Honest sender succeeds at every draw. A Selfish sender succeeds exactly
  when the draw exceeds the double written \<open>0.4\<close>, a Malicious sender exactly when it
  exceeds the double written \<open>0.8\<close>. Over the \<open>2 ^ 53\<close> equally likely draws the
  probability of success is 1 for Honest, \<open>2702159776422297 / 4503599627370496\<close> for
  Selfish and \<open>1801439850948197 / 9007199254740992\<close> for Malicious: less than
  \<open>2 ^ - 52\<close> below 0.6 and 0.2.
\<close>

theorem attempt_on_the_grid:
  "attempt Honest r
   \<and> (attempt Selfish r \<longleftrightarrow> r > 3602879701896397 / 9007199254740992)
   \<and> (attempt Malicious r \<longleftrightarrow> r > 7205759403792794 / 9007199254740992)
   \<and> real (successes Honest) / 2 ^ 53 = 1
   \<and> real (successes Selfish) / 2 ^ 53 = 2702159776422297 / 4503599627370496
   \<and> real (successes Malicious) / 2 ^ 53 = 1801439850948197 / 9007199254740992
   \<and> \<bar>real (successes Selfish) / 2 ^ 53 - 0.6\<bar> < 1 / 2 ^ 52
   \<and> \<bar>real (successes Malicious) / 2 ^ 53 - 0.2\<bar> < 1 / 2 ^ 52"
  by (simp add: attempt_def successes_Honest successes_Selfish successes_Malicious)

subsection \<open>Ranges and monotonicity along a run\<close>

text \<open>
  C2. On a well-formed graph the initialisation and every step return normally, whatever
  the draws. When each energy cost drawn lies in \<open>[0.5, 2]\<close>, the initial state, the
  state \<open>s\<close> after any list \<open>ds\<close> of steps and the state \<open>s'\<close> after one more step each
  have exactly the nodes as keys of every dictionary, every trust in \<open>[0, 1]\<close>, every
  energy in \<open>[0, 100]\<close> and every counter at least 0; from \<open>s\<close> to \<open>s'\<close> no energy rises
  and no counter falls, node by node.
\<close>

theorem range_invariants:
  assumes "wf_graph g" and "\<forall>d \<in> set (ds @ [d']). 0.5 \<le> cost d \<and> cost d \<le> 2"
  shows "\<exists>s0 rs s r s'.
           initialize g rd = Inr s0 \<and> run ds s0 = Inr (rs, s) \<and> simulate_step d' s = Inr (r, s')
         \<and> wf_sim s0 \<and> wf_sim s \<and> wf_sim s'
         \<and> in_range s0 \<and> in_range s \<and> in_range s'
         \<and> dict_le (energy s') (energy s)
         \<and> dict_le (packets_sent s) (packets_sent s')
         \<and> dict_le (packets_received s) (packets_received s')
         \<and> dict_le (packets_dropped s) (packets_dropped s')"
proof -
  from initialize_wf [OF assms(1), of rd] obtain s0 where
    s0: "initialize g rd = Inr s0" "wf_sim s0" "in_range s0" by blast
  from run_total [OF s0(2), of ds] obtain rs s where
    s: "run ds s0 = Inr (rs, s)" "wf_sim s" by blast
  from assms(2) have c: "\<forall>d \<in> set ds. 0 \<le> cost d" and c': "0 \<le> cost d'" by auto
  from run_range [OF s(1) s0(3) c] have rg: "in_range s" .
  from simulate_step_total [OF s(2), of d'] obtain r s' where
    s': "simulate_step d' s = Inr (r, s')" by blast
  from simulate_step_wf [OF s' s(2)] have wf': "wf_sim s'" .
  from simulate_step_range [OF s' rg c'] have rg': "in_range s'" .
  from simulate_step_monotone [OF s' rg c'] s0 s s' wf' rg rg' show ?thesis by blast
qed

theorem range_invariants_witness:
  "wf_graph [(0, [1]), (1, [0])]
   \<and> list_all (\<lambda>d. 0.5 \<le> cost d \<and> cost d \<le> 2)
         [\<lparr>pick_sender = 0, pick_receiver = 0, coin = 0, cost = 1\<rparr>,
          \<lparr>pick_sender = 1, pick_receiver = 0, coin = 0, cost = 2\<rparr>]
   \<and> (\<exists>s0 rs s r s'.
           initialize [(0, [1]), (1, [0])] id = Inr s0
         \<and> run [\<lparr>pick_sender = 0, pick_receiver = 0, coin = 0, cost = 1\<rparr>] s0 = Inr (rs, s)
         \<and> simulate_step \<lparr>pick_sender = 1, pick_receiver = 0, coin = 0, cost = 2\<rparr> s = Inr (r, s')
         \<and> in_range s0 \<and> in_range s \<and> in_range s'
         \<and> dict_le (energy s') (energy s)
         \<and> dict_le (packets_sent s) (packets_sent s'))"
proof -
  have g: "wf_graph [(0, [1]), (1, [0])]"
    by (simp add: wf_graph_def nodes_def)
  have c: "\<forall>d \<in> set ([\<lparr>pick_sender = 0, pick_receiver = 0, coin = 0, cost = 1\<rparr>]
                  @ [\<lparr>pick_sender = 1, pick_receiver = 0, coin = 0, cost = 2\<rparr>]).
         0.5 \<le> cost d \<and> cost d \<le> 2"
    by simp
  have l: "list_all (\<lambda>d. 0.5 \<le> cost d \<and> cost d \<le> 2)
         [\<lparr>pick_sender = 0, pick_receiver = 0, coin = 0, cost = 1\<rparr>,
          \<lparr>pick_sender = 1, pick_receiver = 0, coin = 0, cost = 2\<rparr>]"
    by simp
  from range_invariants [OF g c, of id] g l show ?thesis by blast
qed

subsection \<open>Conservation of packets\<close>

text \<open>
  C3. On a well-formed graph, after the initialisation and any list of steps (each one
  completed or not), the received counters and the dropped counters together add up to
  the sent counters.
\<close>

theorem conservation:
  assumes "wf_graph g"
  shows "\<exists>s0 rs s. initialize g rd = Inr s0 \<and> run ds s0 = Inr (rs, s)
           \<and> total (packets_received s) + total (packets_dropped s) = total (packets_sent s)"
proof -
  from initialize_wf [OF assms, of rd] obtain s0 where
    s0: "initialize g rd = Inr s0" "wf_sim s0"
    and z: "total (packets_sent s0) = 0" "total (packets_received s0) = 0"
      "total (packets_dropped s0) = 0"
    by blast
  from run_total [OF s0(2), of ds] obtain rs s where s: "run ds s0 = Inr (rs, s)" by blast
  from z have "total (packets_received s0) + total (packets_dropped s0) = total (packets_sent s0)"
    by simp
  from run_conservation [OF s this] s0(1) s show ?thesis by blast
qed

theorem conservation_witness:
  "wf_graph [(0, [1]), (1, [0])]
   \<and> (\<exists>s0 rs s. initialize [(0, [1]), (1, [0])] id = Inr s0
         \<and> run [\<lparr>pick_sender = 0, pick_receiver = 0, coin = 0, cost = 1\<rparr>,
                 \<lparr>pick_sender = 1, pick_receiver = 0, coin = 0, cost = 2\<rparr>] s0 = Inr (rs, s)
         \<and> total (packets_received s) + total (packets_dropped s) = total (packets_sent s))"
proof -
  have g: "wf_graph [(0, [1]), (1, [0])]"
    by (simp add: wf_graph_def nodes_def)
  from conservation [OF g, of id] g show ?thesis by blast
qed

subsection \<open>The step engine\<close>

text \<open>
  C6. In a well-formed state, when the drawn sender \<open>a\<close> has at least one neighbour the
  step returns normally with the triple of the sender, the receiver drawn among the
  neighbours of \<open>a\<close> and the outcome of the attempt for the role of \<open>a\<close>. The sent
  counter of \<open>a\<close> goes up by 1; on success the received counter of the receiver goes up
  by 1 and no dropped counter changes, on failure the dropped counter of \<open>a\<close> goes up by
  1 and no received counter changes; the final state is the result of
  \<open>update_trust_energy\<close> for \<open>a\<close> and the outcome on the state with these counters.
\<close>

theorem completed_step:
  assumes "wf_sim s" and "choice (nodes (G s)) (pick_sender d) = Inr a"
    and "neighbors (G s) a = Inr nb" and "nb \<noteq> []"
  shows "\<exists>b \<rho> ok ps s2 s'.
           choice nb (pick_receiver d) = Inr b
         \<and> map_of (roles s) a = Some \<rho> \<and> ok = attempt \<rho> (coin d)
         \<and> simulate_step d s = Inr (Some (a, b, ok), s')
         \<and> map_of (packets_sent s) a = Some ps
         \<and> map_of (packets_sent s') = (map_of (packets_sent s))(a \<mapsto> ps + 1)
         \<and> (if ok
            then (\<exists>pr. map_of (packets_received s) b = Some pr
                   \<and> map_of (packets_received s') = (map_of (packets_received s))(b \<mapsto> pr + 1))
                 \<and> packets_dropped s' = packets_dropped s
            else (\<exists>pd. map_of (packets_dropped s) a = Some pd
                   \<and> map_of (packets_dropped s') = (map_of (packets_dropped s))(a \<mapsto> pd + 1))
                 \<and> packets_received s' = packets_received s)
         \<and> count_packet a b ok s = Inr s2
         \<and> update_trust_energy a ok (cost d) s2 = Inr s'"
proof -
  from assms(1) have g: "wf_graph (G s)" by (simp add: wf_sim_def)
  from assms(2) have a_in: "a \<in> set (nodes (G s))" by (rule choice_mem)
  from neighbors_mem [OF g assms(3)] have sub: "set nb \<subseteq> set (nodes (G s))" by simp
  from choice_Inr [OF assms(4)] obtain b where b: "choice nb (pick_receiver d) = Inr b"
    by blast
  then have b_in: "b \<in> set (nodes (G s))" using sub choice_mem by fastforce
  from wf_sim_lookup [OF assms(1) a_in] obtain \<rho> t e ps pd where
    la: "map_of (roles s) a = Some \<rho>" "map_of (trust_scores s) a = Some t"
      "map_of (energy s) a = Some e" "map_of (packets_sent s) a = Some ps"
      "map_of (packets_dropped s) a = Some pd"
    by blast
  from wf_sim_lookup [OF assms(1) b_in] obtain pr where
    lb: "map_of (packets_received s) b = Some pr" by blast
  define ok where "ok = attempt \<rho> (coin d)"
  define s2 where "s2 = (if ok
                then s\<lparr>packets_sent := setitem (packets_sent s) a (ps + 1),
                       packets_received := setitem (packets_received s) b (pr + 1)\<rparr>
                else s\<lparr>packets_sent := setitem (packets_sent s) a (ps + 1),
                       packets_dropped := setitem (packets_dropped s) a (pd + 1)\<rparr>)"
  have cp: "count_packet a b ok s = Inr s2"
    unfolding s2_def by (rule count_packet_Inr [OF la(4) lb la(5)])
  have t2: "map_of (trust_scores s2) a = Some t" and e2: "map_of (energy s2) a = Some e"
    using la by (simp_all add: s2_def)
  define s' where "s' = s2\<lparr>trust_scores := setitem (trust_scores s2) a
                     (if ok then min 1 (t + 0.05) else max 0 (t - 0.1)),
                  energy := setitem (energy s2) a (max 0 (e - cost d))\<rparr>"
  have ute: "update_trust_energy a ok (cost d) s2 = Inr s'"
    unfolding s'_def by (rule update_trust_energy_Inr [OF t2 e2])
  have st: "simulate_step d s = Inr (Some (a, b, ok), s')"
    using simulate_step_complete [OF assms(2,3,4) b la(1)] cp ute by (simp add: ok_def)
  have sent: "map_of (packets_sent s') = (map_of (packets_sent s))(a \<mapsto> ps + 1)"
    by (simp add: s'_def s2_def map_of_setitem)
  have cnt: "if ok
            then (\<exists>pr. map_of (packets_received s) b = Some pr
                   \<and> map_of (packets_received s') = (map_of (packets_received s))(b \<mapsto> pr + 1))
                 \<and> packets_dropped s' = packets_dropped s
            else (\<exists>pd. map_of (packets_dropped s) a = Some pd
                   \<and> map_of (packets_dropped s') = (map_of (packets_dropped s))(a \<mapsto> pd + 1))
                 \<and> packets_received s' = packets_received s"
    using lb la(5) by (simp add: s'_def s2_def map_of_setitem)
  from b la(1) ok_def st la(4) sent cnt cp ute show ?thesis by blast
qed

theorem completed_step_witness:
  "wf_sim \<lparr>G = [(0, [1]), (1, [0])], roles = [(0, Honest), (1, Malicious)],
          trust_scores = [(0, 1), (1, 1)], energy = [(0, 100), (1, 100)],
          packets_sent = [(0, 0), (1, 0)], packets_received = [(0, 0), (1, 0)],
          packets_dropped = [(0, 0), (1, 0)]\<rparr>
   \<and> choice (nodes [(0, [1]), (1, [0])]) 1 = Inr 1
   \<and> neighbors [(0, [1]), (1, [0])] 1 = Inr [0]
   \<and> (\<exists>s'. simulate_step \<lparr>pick_sender = 1, pick_receiver = 0, coin = 0.5, cost = 1\<rparr>
          \<lparr>G = [(0, [1]), (1, [0])], roles = [(0, Honest), (1, Malicious)],
           trust_scores = [(0, 1), (1, 1)], energy = [(0, 100), (1, 100)],
           packets_sent = [(0, 0), (1, 0)], packets_received = [(0, 0), (1, 0)],
           packets_dropped = [(0, 0), (1, 0)]\<rparr> = Inr (Some (1, 0, False), s')
        \<and> map_of (packets_sent s') 1 = Some 1
        \<and> map_of (packets_dropped s') 1 = Some 1
        \<and> packets_received s' = [(0, 0), (1, 0)])"
proof -
  let ?s = "\<lparr>G = [(0, [1]), (1, [0])], roles = [(0, Honest), (1, Malicious)],
          trust_scores = [(0, 1), (1, 1)], energy = [(0, 100), (1, 100)],
          packets_sent = [(0, 0), (1, 0)], packets_received = [(0, 0), (1, 0)],
          packets_dropped = [(0, 0), (1, 0)]\<rparr>"
  let ?d = "\<lparr>pick_sender = 1, pick_receiver = 0, coin = 0.5, cost = 1\<rparr>"
  have w: "wf_sim ?s" by (simp add: wf_sim_def wf_graph_def nodes_def keys_def)
  have a: "choice (nodes (G ?s)) (pick_sender ?d) = Inr 1" by (simp add: choice_def nodes_def)
  have n: "neighbors (G ?s) 1 = Inr [0]" by (simp add: neighbors_def)
  have ne: "[0::node] \<noteq> []" by simp
  from completed_step [OF w a n ne] show ?thesis
    using w a n by (auto simp: choice_def attempt_def)
qed

subsection \<open>Steps without a neighbour\<close>

text \<open>
  C7. When the drawn sender has no neighbour the step returns nothing and the state it
  returns is the state it was given: graph, roles, trust, energy and counters are the
  same. In a graph with at least one node and no edge at all, every list of steps
  returns normally with nothing for each step and the state unchanged.
\<close>

theorem no_neighbor_step:
  "(choice (nodes (G s)) (pick_sender d) = Inr a \<longrightarrow> neighbors (G s) a = Inr []
      \<longrightarrow> simulate_step d s = Inr (None, s))
   \<and> (G s \<noteq> [] \<longrightarrow> (\<forall>(n, nb) \<in> set (G s). nb = [])
      \<longrightarrow> run ds s = Inr (replicate (length ds) None, s))"
  by (simp add: simulate_step_noop no_edges_run)

theorem no_neighbor_step_witness:
  "choice (nodes (G (empty_sim [(0, []), (1, [])]))) (pick_sender \<lparr>pick_sender = 1, pick_receiver = 0, coin = 0, cost = 1\<rparr>) = Inr 1
   \<and> neighbors (G (empty_sim [(0, []), (1, [])])) 1 = Inr []
   \<and> G (empty_sim [(0, []), (1, [])]) \<noteq> []
   \<and> list_all (\<lambda>(n, nb). nb = []) (G (empty_sim [(0, []), (1, [])]))
   \<and> simulate_step \<lparr>pick_sender = 1, pick_receiver = 0, coin = 0, cost = 1\<rparr>
        (empty_sim [(0, []), (1, [])]) = Inr (None, empty_sim [(0, []), (1, [])])
   \<and> run [\<lparr>pick_sender = 1, pick_receiver = 0, coin = 0, cost = 1\<rparr>,
          \<lparr>pick_sender = 0, pick_receiver = 0, coin = 0, cost = 1\<rparr>]
        (empty_sim [(0, []), (1, [])]) = Inr ([None, None], empty_sim [(0, []), (1, [])])"
proof -
  let ?s = "empty_sim [(0, []), (1, [])]"
  let ?d = "\<lparr>pick_sender = 1, pick_receiver = 0, coin = 0, cost = 1\<rparr>"
  let ?ds = "[?d, \<lparr>pick_sender = 0, pick_receiver = 0, coin = 0, cost = 1\<rparr>]"
  have a: "choice (nodes (G ?s)) (pick_sender ?d) = Inr 1"
    by (simp add: choice_def nodes_def empty_sim_def)
  have n: "neighbors (G ?s) 1 = Inr []" by (simp add: neighbors_def empty_sim_def)
  have g: "G ?s \<noteq> []" by (simp add: empty_sim_def)
  have e: "\<forall>(n, nb) \<in> set (G ?s). nb = []" by (simp add: empty_sim_def)
  have r: "replicate (length ?ds) (None :: outcome option) = [None, None]"
    by (simp add: numeral_2_eq_2)
  from no_neighbor_step [of ?s ?d 1 ?ds] a n g e
  have "simulate_step ?d ?s = Inr (None, ?s) \<and> run ?ds ?s = Inr (replicate (length ?ds) None, ?s)"
    by blast
  then have "simulate_step ?d ?s = Inr (None, ?s) \<and> run ?ds ?s = Inr ([None, None], ?s)"
    unfolding r .
  moreover have "list_all (\<lambda>(n, nb). nb = []) (G ?s)" by (simp add: empty_sim_def)
  ultimately show ?thesis using a n g by blast
qed

subsection \<open>The classifier\<close>

text \<open>
  C4. The list computed at lines 112 and 167 holds exactly the nodes whose trust is below
  0.4, strictly: in a dictionary (keys distinct) a node is listed if and only if its
  current trust is less than 0.4. The list is a function of the trust dictionary alone and
  nothing is written. For the trust values 0.9, 0.3, 0.39 and 0.4 of nodes 0 to 3 it is
  the list of nodes 1 and 2.
\<close>

theorem detected_spec:
  assumes "distinct (keys (trust_scores s))"
  shows "set (detected s) = {n. \<exists>t. map_of (trust_scores s) n = Some t \<and> t < 0.4}
       \<and> detected (s\<lparr>trust_scores := [(0, 0.9), (1, 0.3), (2, 0.39), (3, 0.4)]\<rparr>) = [1, 2]"
proof -
  have "set (detected s) = {n. \<exists>t. map_of (trust_scores s) n = Some t \<and> t < 0.4}"
    unfolding detected_set using distinct_map_of_iff [OF assms] by simp
  moreover have "detected (s\<lparr>trust_scores := [(0, 0.9), (1, 0.3), (2, 0.39), (3, 0.4)]\<rparr>) = [1, 2]"
    by (simp add: detected_def)
  ultimately show ?thesis by simp
qed

theorem detected_spec_witness:
  "distinct (keys (trust_scores ((empty_sim [])\<lparr>trust_scores := [(0, 0.4), (1, 0.1)]\<rparr>)))
   \<and> set (detected ((empty_sim [])\<lparr>trust_scores := [(0, 0.4), (1, 0.1)]\<rparr>)) =
       {n. \<exists>t. map_of [(0, 0.4), (1, 0.1 :: real)] n = Some t \<and> t < 0.4}"
proof -
  let ?s = "(empty_sim [])\<lparr>trust_scores := [(0, 0.4), (1, 0.1)]\<rparr>"
  have d: "distinct (keys (trust_scores ?s))" by (simp add: keys_def)
  from detected_spec [OF d] d show ?thesis by simp
qed

subsection \<open>What a step leaves alone\<close>

text \<open>
  C10. A completed step on a simple graph has a receiver other than its sender. It leaves
  the graph and the roles as they were and keeps the keys of every dictionary; trust,
  energy, sent and dropped counters are unchanged at every node but the sender (so at
  the receiver), and the received counter is unchanged at every node but the receiver
  (so at the sender).
\<close>

theorem step_frame:
  assumes "wf_graph (G s)" and "simulate_step d s = Inr (Some (a, b, ok), s')"
  shows "a \<noteq> b \<and> G s' = G s \<and> roles s' = roles s
       \<and> (\<forall>n. n \<noteq> a \<longrightarrow> map_of (trust_scores s') n = map_of (trust_scores s) n)
       \<and> (\<forall>n. n \<noteq> a \<longrightarrow> map_of (energy s') n = map_of (energy s) n)
       \<and> (\<forall>n. n \<noteq> a \<longrightarrow> map_of (packets_sent s') n = map_of (packets_sent s) n)
       \<and> (\<forall>n. n \<noteq> a \<longrightarrow> map_of (packets_dropped s') n = map_of (packets_dropped s) n)
       \<and> (\<forall>n. n \<noteq> b \<longrightarrow> map_of (packets_received s') n = map_of (packets_received s) n)
       \<and> map_of (packets_received s') a = map_of (packets_received s) a
       \<and> map_of (trust_scores s') b = map_of (trust_scores s) b
       \<and> map_of (energy s') b = map_of (energy s) b
       \<and> map_of (packets_sent s') b = map_of (packets_sent s) b
       \<and> map_of (packets_dropped s') b = map_of (packets_dropped s) b
       \<and> keys (trust_scores s') = keys (trust_scores s)
       \<and> keys (energy s') = keys (energy s)
       \<and> keys (packets_sent s') = keys (packets_sent s)
       \<and> keys (packets_received s') = keys (packets_received s)
       \<and> keys (packets_dropped s') = keys (packets_dropped s)"
proof -
  from simulate_step_Some [OF assms(2)] obtain nb t e ps where
    nb: "neighbors (G s) a = Inr nb" and b: "choice nb (pick_receiver d) = Inr b"
    and t: "map_of (trust_scores s) a = Some t" and e: "map_of (energy s) a = Some e"
    and ps: "map_of (packets_sent s) a = Some ps"
    and c: "if ok
            then \<exists>pr. map_of (packets_received s) b = Some pr \<and>
                   s' = s\<lparr>packets_sent := setitem (packets_sent s) a (ps + 1),
                          packets_received := setitem (packets_received s) b (pr + 1),
                          trust_scores := setitem (trust_scores s) a (min 1 (t + 0.05)),
                          energy := setitem (energy s) a (max 0 (e - cost d))\<rparr>
            else \<exists>pd. map_of (packets_dropped s) a = Some pd \<and>
                   s' = s\<lparr>packets_sent := setitem (packets_sent s) a (ps + 1),
                          packets_dropped := setitem (packets_dropped s) a (pd + 1),
                          trust_scores := setitem (trust_scores s) a (max 0 (t - 0.1)),
                          energy := setitem (energy s) a (max 0 (e - cost d))\<rparr>"
    by blast
  from neighbors_mem [OF assms(1) nb] choice_mem [OF b] have ab: "a \<noteq> b" by auto
  show ?thesis
  proof (cases ok)
    case True
    with c obtain pr where pr: "map_of (packets_received s) b = Some pr"
      and s': "s' = s\<lparr>packets_sent := setitem (packets_sent s) a (ps + 1),
                          packets_received := setitem (packets_received s) b (pr + 1),
                          trust_scores := setitem (trust_scores s) a (min 1 (t + 0.05)),
                          energy := setitem (energy s) a (max 0 (e - cost d))\<rparr>"
      by auto
    from ab t e ps pr show ?thesis
      unfolding s' by (simp add: map_of_setitem keys_setitem_Some)
  next
    case False
    with c obtain pd where pd: "map_of (packets_dropped s) a = Some pd"
      and s': "s' = s\<lparr>packets_sent := setitem (packets_sent s) a (ps + 1),
                          packets_dropped := setitem (packets_dropped s) a (pd + 1),
                          trust_scores := setitem (trust_scores s) a (max 0 (t - 0.1)),
                          energy := setitem (energy s) a (max 0 (e - cost d))\<rparr>"
      by auto
    from ab t e ps pd show ?thesis
      unfolding s' by (simp add: map_of_setitem keys_setitem_Some)
  qed
qed

theorem step_frame_witness:
  "wf_graph [(0, [1]), (1, [0])]
   \<and> simulate_step \<lparr>pick_sender = 0, pick_receiver = 0, coin = 0, cost = 1\<rparr>
        \<lparr>G = [(0, [1]), (1, [0])], roles = [(0, Honest), (1, Malicious)],
         trust_scores = [(0, 0.5), (1, 1)], energy = [(0, 100), (1, 100)],
         packets_sent = [(0, 0), (1, 0)], packets_received = [(0, 0), (1, 0)],
         packets_dropped = [(0, 0), (1, 0)]\<rparr>
       = Inr (Some (0, 1, True),
          \<lparr>G = [(0, [1]), (1, [0])], roles = [(0, Honest), (1, Malicious)],
           trust_scores = [(0, 0.55), (1, 1)], energy = [(0, 99), (1, 100)],
           packets_sent = [(0, 1), (1, 0)], packets_received = [(0, 0), (1, 1)],
           packets_dropped = [(0, 0), (1, 0)]\<rparr>)
   \<and> (0::node) \<noteq> 1"
proof -
  let ?s = "\<lparr>G = [(0, [1]), (1, [0])], roles = [(0, Honest), (1, Malicious)],
         trust_scores = [(0, 0.5), (1, 1)], energy = [(0, 100), (1, 100)],
         packets_sent = [(0, 0), (1, 0)], packets_received = [(0, 0), (1, 0)],
         packets_dropped = [(0, 0), (1, 0)]\<rparr>"
  let ?s' = "\<lparr>G = [(0, [1]), (1, [0])], roles = [(0, Honest), (1, Malicious)],
           trust_scores = [(0, 0.55), (1, 1)], energy = [(0, 99), (1, 100)],
           packets_sent = [(0, 1), (1, 0)], packets_received = [(0, 0), (1, 1)],
           packets_dropped = [(0, 0), (1, 0)]\<rparr>"
  let ?d = "\<lparr>pick_sender = 0, pick_receiver = 0, coin = 0, cost = 1\<rparr>"
  have g: "wf_graph (G ?s)" by (simp add: wf_graph_def nodes_def)
  have st: "simulate_step ?d ?s = Inr (Some (0, 1, True), ?s')"
    by (simp add: simulate_step_def choice_def nodes_def neighbors_def getitem_def attempt_def
        count_packet_def update_trust_energy_def setitem_def Let_def)
  from step_frame [OF g st] have "(0::node) \<noteq> 1" by blast
  with g st show ?thesis by simp
qed

end
